theory Spec2Isabelle
  imports
    Complex_Main
    "HOL-Library.Word"
    "HOL-Library.Char_ord"
    "HOL-Library.List_Lexorder"
    "HOL-Library.Sublist"
    "HOL-Library.Multiset"
begin

section \<open>The test case object\<close>

text \<open>
  \<^verbatim>\<open>gats::TestApp::TestCase\<close> of \<^verbatim>\<open>TestApp.hpp\<close>: a name, two counters of type
  \<^verbatim>\<open>std::uintmax_t\<close> (64 bits wide, arithmetic modulo \<open>2 ^ 64\<close>) and a weight of type
  \<^verbatim>\<open>double\<close>, read here as a real number.
\<close>

record TestCase =
  name_m :: string
  nChecked_m :: "64 word"
  nPassed_m :: "64 word"
  weight_m :: real

subsection \<open>Comparison operators\<close>

text \<open>
  \<^verbatim>\<open>operator <=>\<close> returns \<^verbatim>\<open>name_m <=> rhs.name_m\<close>. On \<^verbatim>\<open>std::string\<close> that is the
  result of \<^verbatim>\<open>compare\<close>: the characters are compared position by position as
  unsigned bytes, and when one string is a prefix of the other the shorter one is the
  smaller.
\<close>

datatype strong_ordering = Less | Equivalent | Greater

fun string_compare :: "string \<Rightarrow> string \<Rightarrow> strong_ordering" where
  "string_compare [] [] = Equivalent"
| "string_compare [] (y # ys) = Less"
| "string_compare (x # xs) [] = Greater"
| "string_compare (x # xs) (y # ys) =
     (if (of_char x :: nat) < of_char y then Less
      else if (of_char y :: nat) < of_char x then Greater
      else string_compare xs ys)"

definition TestCase_spaceship :: "TestCase \<Rightarrow> TestCase \<Rightarrow> strong_ordering" where
  "TestCase_spaceship lhs rhs = string_compare (name_m lhs) (name_m rhs)"

text \<open>\<^verbatim>\<open>operator ==\<close> returns \<^verbatim>\<open>name_m == rhs.name_m\<close>.\<close>

definition TestCase_eq :: "TestCase \<Rightarrow> TestCase \<Rightarrow> bool" where
  "TestCase_eq lhs rhs = (name_m lhs = name_m rhs)"

text \<open>The relational operators that the language derives from \<^verbatim>\<open><=>\<close>.\<close>

definition TestCase_less :: "TestCase \<Rightarrow> TestCase \<Rightarrow> bool" where
  "TestCase_less lhs rhs = (TestCase_spaceship lhs rhs = Less)"

definition TestCase_greater :: "TestCase \<Rightarrow> TestCase \<Rightarrow> bool" where
  "TestCase_greater lhs rhs = (TestCase_spaceship lhs rhs = Greater)"

section \<open>Rendering of values\<close>

text \<open>
  The characters that the diagnostics contain besides printable text: the double quote,
  the line feed and the horizontal tab.
\<close>

definition dquote :: string where
  "dquote = [CHR 0x22]"

definition newline :: string where
  "newline = [CHR 0x0A]"

definition tab :: string where
  "tab = [CHR 0x09]"

text \<open>
  What \<^verbatim>\<open>operator <<\<close> of the standard library writes for an \<^verbatim>\<open>int\<close>: its decimal
  digits, after a minus sign when it is negative.
\<close>

definition digit_char :: "nat \<Rightarrow> char" where
  "digit_char d = ''0123456789'' ! d"

fun show_nat :: "nat \<Rightarrow> string" where
  "show_nat n =
     (if n < 10 then [digit_char n] else show_nat (n div 10) @ [digit_char (n mod 10)])"

declare show_nat.simps [simp del]

definition show_int :: "int \<Rightarrow> string" where
  "show_int i = (if i < 0 then CHR ''-'' # show_nat (nat (- i)) else show_nat (nat i))"

section \<open>The check services\<close>

text \<open>
  The part of the application that a check touches: the test case that
  \<^verbatim>\<open>currentCasePtr_sm\<close> points to, and the characters written to \<^verbatim>\<open>display()\<close>, which is
  \<^verbatim>\<open>std::cout\<close>. The macros reach the case through \<^verbatim>\<open>TestApp::current_case\<close>; they are
  modelled where the driver has set the pointer, which is where a test body runs.
\<close>

record TestApp =
  currentCase :: TestCase
  cout :: string

definition add_check :: "TestCase \<Rightarrow> TestCase" where
  "add_check t = t\<lparr>nChecked_m := nChecked_m t + 1\<rparr>"

definition add_passed :: "TestCase \<Rightarrow> TestCase" where
  "add_passed t = t\<lparr>nPassed_m := nPassed_m t + 1\<rparr>"

text \<open>
  Modelled from the spec: \<^verbatim>\<open>TestApp::current_case\<close> is declared in \<^verbatim>\<open>TestApp.hpp\<close> and
  defined in a file that is not among the sources. By the spec it returns the case that
  the driver most recently marked active, so a method called through it acts on
  \<open>currentCase\<close>.
\<close>

definition on_current :: "(TestCase \<Rightarrow> TestCase) \<Rightarrow> TestApp \<Rightarrow> TestApp" where
  "on_current f app = app\<lparr>currentCase := f (currentCase app)\<rparr>"

definition display_put :: "string \<Rightarrow> TestApp \<Rightarrow> TestApp" where
  "display_put s app = app\<lparr>cout := cout app @ s\<rparr>"

text \<open>
  Modelled from the spec: \<^verbatim>\<open>TestCase::output_check_location\<close> is declared in
  \<^verbatim>\<open>TestApp.hpp\<close> and defined in a file that is not among the sources. The spec gives
  the tag it writes as the file name, the line number in parentheses, a colon and a space.
\<close>

definition output_check_location :: "string \<Rightarrow> int \<Rightarrow> string" where
  "output_check_location file line = file @ ''('' @ show_int line @ ''): ''"

text \<open>
  Modelled from the spec: \<^verbatim>\<open>TestCase::check\<close> is declared in \<^verbatim>\<open>TestApp.hpp\<close> and defined
  in a file that is not among the sources. By the spec it increments the checked counter;
  when the condition is false it writes the location tag, the quoted expression text and
  the word failed, and otherwise it increments the passed counter.
\<close>

definition check :: "bool \<Rightarrow> string \<Rightarrow> string \<Rightarrow> int \<Rightarrow> TestApp \<Rightarrow> TestApp" where
  "check condition condStr file line app =
     (let app1 = on_current add_check app in
      if condition = False
      then display_put
             (output_check_location file line @ dquote @ condStr @ dquote @ '' failed'' @ newline)
             app1
      else on_current add_passed app1)"

text \<open>
  Modelled from the spec: \<^verbatim>\<open>TestCase::check_message\<close> is declared in \<^verbatim>\<open>TestApp.hpp\<close> and
  defined in a file that is not among the sources. By the spec it is \<^verbatim>\<open>check\<close> with the
  message of the caller written in place of the expression text.
\<close>

definition check_message :: "bool \<Rightarrow> string \<Rightarrow> string \<Rightarrow> int \<Rightarrow> TestApp \<Rightarrow> TestApp" where
  "check_message condition message file line app =
     (let app1 = on_current add_check app in
      if condition = False
      then display_put (output_check_location file line @ message @ newline) app1
      else on_current add_passed app1)"

text \<open>
  \<^verbatim>\<open>TestCase::check_equal\<close>. The template's operand types are one type \<open>'a\<close> here, their
  \<^verbatim>\<open>operator ==\<close> is equality on \<open>'a\<close>, and \<open>put\<close> is what \<^verbatim>\<open>operator <<\<close> writes for a
  value of that type.
\<close>

definition check_equal ::
  "('a \<Rightarrow> string) \<Rightarrow> 'a \<Rightarrow> 'a \<Rightarrow> string \<Rightarrow> string \<Rightarrow> string \<Rightarrow> int \<Rightarrow> TestApp \<Rightarrow> TestApp"
where
  "check_equal put lhs rhs lhsStr rhsStr file line app =
     (let condition = (lhs = rhs);
          app1 = on_current (\<lambda>t. t\<lparr>nChecked_m := nChecked_m t + 1\<rparr>) app
      in
      if condition = False
      then display_put
             (output_check_location file line @
              dquote @ lhsStr @ dquote @ '' ['' @ put lhs @ ''] != '' @
              dquote @ rhsStr @ dquote @ '' ['' @ put rhs @ '']'' @ newline)
             app1
      else on_current (\<lambda>t. t\<lparr>nPassed_m := nPassed_m t + 1\<rparr>) app1)"

text \<open>
  The operations that an instance of a check template takes from the type of its
  operands: what \<^verbatim>\<open>operator <<\<close> writes for a value, the result of \<^verbatim>\<open>operator -\<close>, and
  the function that the unqualified call \<^verbatim>\<open>abs\<close> resolves to. \<^verbatim>\<open>TestApp.hpp\<close> itself
  includes neither \<^verbatim>\<open><cmath>\<close> nor \<^verbatim>\<open><cstdlib>\<close> and has no using-declaration for
  \<^verbatim>\<open>std::abs\<close>, so which function the call names is settled where the header is
  compiled, not by the header. The comparison \<^verbatim>\<open><=\<close> is the order of the type.
\<close>

record 'a operand =
  put_of :: "'a \<Rightarrow> string"
  minus_of :: "'a \<Rightarrow> 'a \<Rightarrow> 'a"
  abs_of :: "'a \<Rightarrow> 'a"

text \<open>
  An operand type whose subtraction is exact and whose \<^verbatim>\<open>abs\<close> is its absolute value.
\<close>

definition exact :: "('a::linordered_idom \<Rightarrow> string) \<Rightarrow> 'a operand" where
  "exact put = \<lparr>put_of = put, minus_of = (\<lambda>x y. x - y), abs_of = (\<lambda>x. \<bar>x\<bar>)\<rparr>"

text \<open>
  The operand type \<^verbatim>\<open>double\<close>, read as the real numbers, where the call resolves to
  \<^verbatim>\<open>int abs(int)\<close> of the C library: the argument is converted to \<^verbatim>\<open>int\<close>, which drops
  its fraction, and the result is the absolute value of that integer.
\<close>

definition truncating :: "(real \<Rightarrow> string) \<Rightarrow> real operand" where
  "truncating put =
     \<lparr>put_of = put, minus_of = (\<lambda>x y. x - y), abs_of = (\<lambda>x. of_int \<lfloor>\<bar>x\<bar>\<rfloor>)\<rparr>"

text \<open>
  \<^verbatim>\<open>TestCase::check_close_within\<close>. The operands and the minimum are values of one type
  \<open>'a\<close>, whose operations are those of \<open>ops\<close>.
\<close>

definition check_close_within ::
  "('a::linordered_idom) operand \<Rightarrow> 'a \<Rightarrow> 'a \<Rightarrow> 'a \<Rightarrow>
     string \<Rightarrow> string \<Rightarrow> string \<Rightarrow> string \<Rightarrow> int \<Rightarrow> TestApp \<Rightarrow> TestApp"
where
  "check_close_within ops lhs rhs minimum lhsStr rhsStr minimumStr file line app =
     (let condition = (abs_of ops (minus_of ops lhs rhs) \<le> abs_of ops minimum);
          app1 = on_current add_check app
      in
      if condition = False
      then display_put
             (output_check_location file line @
              ''difference('' @ lhsStr @ '', '' @ rhsStr @ '') > '' @ minimumStr @
              '' ==> '' @ tab @ ''|'' @ put_of ops lhs @ '' - '' @ put_of ops rhs @ ''| > '' @
              put_of ops (abs_of ops minimum) @ newline)
             app1
      else on_current add_passed app1)"

section \<open>The check macros\<close>

text \<open>
  Each macro takes the file and the line of its call site, and the text of an argument
  where the macro stringifies it.
\<close>

definition GATS_CHECK :: "bool \<Rightarrow> string \<Rightarrow> string \<Rightarrow> int \<Rightarrow> TestApp \<Rightarrow> TestApp" where
  "GATS_CHECK condition condStr file line app = check condition condStr file line app"

definition GATS_CHECK_MESSAGE :: "bool \<Rightarrow> string \<Rightarrow> string \<Rightarrow> int \<Rightarrow> TestApp \<Rightarrow> TestApp" where
  "GATS_CHECK_MESSAGE condition message file line app =
     (let cond = condition;
          strMessage = (if cond = False then message else [])
      in check_message cond strMessage file line app)"

definition GATS_CHECK_EQUAL ::
  "('a \<Rightarrow> string) \<Rightarrow> 'a \<Rightarrow> 'a \<Rightarrow> string \<Rightarrow> string \<Rightarrow> string \<Rightarrow> int \<Rightarrow> TestApp \<Rightarrow> TestApp"
where
  "GATS_CHECK_EQUAL put testValue expectedValue testStr expectedStr file line app =
     check_equal put testValue expectedValue testStr expectedStr file line app"

definition GATS_CHECK_WITHIN ::
  "('a::linordered_idom) operand \<Rightarrow> 'a \<Rightarrow> 'a \<Rightarrow> 'a \<Rightarrow>
     string \<Rightarrow> string \<Rightarrow> string \<Rightarrow> string \<Rightarrow> int \<Rightarrow> TestApp \<Rightarrow> TestApp"
where
  "GATS_CHECK_WITHIN ops testValue expectedValue minimum testStr expectedStr minimumStr file line app =
     check_close_within ops testValue expectedValue minimum testStr expectedStr minimumStr
       file line app"

text \<open>
  What running the operation of \<^verbatim>\<open>GATS_CHECK_THROW\<close> inside the \<^verbatim>\<open>try\<close> block comes to:
  it returns, it throws an exception that the handler for the expected type catches, or
  it throws one that only \<^verbatim>\<open>catch(...)\<close> catches. The operation is taken by this outcome
  alone.
\<close>

datatype outcome = No_throw | Throws_expected | Throws_other

definition GATS_CHECK_THROW :: "outcome \<Rightarrow> string \<Rightarrow> string \<Rightarrow> int \<Rightarrow> TestApp \<Rightarrow> TestApp" where
  "GATS_CHECK_THROW operation expectedStr file line app =
     (let app1 = on_current add_check app;
          (isGood, app2) =
            (case operation of
               No_throw \<Rightarrow> (False, app1)
             | Throws_expected \<Rightarrow> (True, on_current add_passed app1)
             | Throws_other \<Rightarrow>
                 (True,
                  display_put
                    (output_check_location file line @
                     ''unknown exception '' @ dquote @ expectedStr @ dquote @
                     '' not thrown'' @ newline)
                    app1))
      in
      if \<not> isGood
      then display_put
             (output_check_location file line @
              ''no exception thrown, expecting '' @ dquote @ expectedStr @ dquote @ newline)
             app2
      else app2)"

text \<open>
  The effect of \<^verbatim>\<open>GATS_FAIL\<close> on the state; its \<^verbatim>\<open>return\<close> is part of the execution of a
  body below.
\<close>

definition GATS_FAIL :: "string \<Rightarrow> string \<Rightarrow> int \<Rightarrow> TestApp \<Rightarrow> TestApp" where
  "GATS_FAIL msg file line app =
     display_put (output_check_location file line @ msg @ newline) (on_current add_check app)"

section \<open>Test bodies\<close>

text \<open>
  A test body, the \<^verbatim>\<open>execute\<close> method that \<^verbatim>\<open>GATS_TEST_CASE\<close> declares, is taken as the
  sequence of macro invocations that it makes in the order it reaches them. An invocation
  of \<^verbatim>\<open>GATS_FAIL\<close> ends with \<^verbatim>\<open>return\<close>, which leaves the body.
\<close>

datatype 'a stmt =
    Check bool string string int
  | Check_message bool string string int
  | Check_equal 'a 'a string string string int
  | Check_within 'a 'a 'a string string string string int
  | Check_throw outcome string string int
  | Fail string string int

datatype flow = Falls_through | Returns

fun exec :: "('a::linordered_idom) operand \<Rightarrow> 'a stmt \<Rightarrow> TestApp \<Rightarrow> flow \<times> TestApp" where
  "exec ops (Check c cs f l) app = (Falls_through, GATS_CHECK c cs f l app)"
| "exec ops (Check_message c m f l) app = (Falls_through, GATS_CHECK_MESSAGE c m f l app)"
| "exec ops (Check_equal x y xs ys f l) app =
     (Falls_through, GATS_CHECK_EQUAL (put_of ops) x y xs ys f l app)"
| "exec ops (Check_within x y m xs ys ms f l) app =
     (Falls_through, GATS_CHECK_WITHIN ops x y m xs ys ms f l app)"
| "exec ops (Check_throw r e f l) app = (Falls_through, GATS_CHECK_THROW r e f l app)"
| "exec ops (Fail m f l) app = (Returns, GATS_FAIL m f l app)"

fun run_body :: "('a::linordered_idom) operand \<Rightarrow> 'a stmt list \<Rightarrow> TestApp \<Rightarrow> TestApp" where
  "run_body ops [] app = app"
| "run_body ops (s # ss) app =
     (case exec ops s app of
        (Returns, app1) \<Rightarrow> app1
      | (Falls_through, app1) \<Rightarrow> run_body ops ss app1)"

fun is_Fail :: "'a stmt \<Rightarrow> bool" where
  "is_Fail (Fail m f l) = True"
| "is_Fail s = False"

text \<open>A test case as its constructor leaves it: both counters are zero.\<close>

definition new_TestCase :: "string \<Rightarrow> real \<Rightarrow> TestCase" where
  "new_TestCase name weight =
     \<lparr>name_m = name, nChecked_m = 0, nPassed_m = 0, weight_m = weight\<rparr>"

section \<open>The driver\<close>

text \<open>
  Modelled from the spec: the loop of \<^verbatim>\<open>TestApp::execute\<close>, which is declared in
  \<^verbatim>\<open>TestApp.hpp\<close> and defined in a file that is not among the sources. By the spec the
  driver takes the cases in order, makes each the current case and invokes its body. A
  registered case is given with its body; the result holds the cases in the order they
  were run, with the counters their bodies left, and the display.
\<close>

fun run_cases ::
  "('a::linordered_idom) operand \<Rightarrow> (TestCase \<times> 'a stmt list) list \<Rightarrow> string \<Rightarrow>
     TestCase list \<times> string"
where
  "run_cases ops [] out = ([], out)"
| "run_cases ops ((c, body) # cs) out =
     (let app = run_body ops body \<lparr>currentCase = c, cout = out\<rparr>;
          (finished, out1) = run_cases ops cs (cout app)
      in (currentCase app # finished, out1))"

text \<open>
  Modelled from the spec: the sort of \<^verbatim>\<open>TestApp::execute\<close>, defined in a file that is not
  among the sources. By the spec the driver sorts the registered cases by name in
  ascending order, in the total order of the test cases. The order of the test cases is
  \<^verbatim>\<open>operator <\<close> of TestCase; the sort is an insertion sort by it.
\<close>

fun insert_case :: "TestCase \<times> 'b \<Rightarrow> (TestCase \<times> 'b) list \<Rightarrow> (TestCase \<times> 'b) list" where
  "insert_case r [] = [r]"
| "insert_case r (q # qs) =
     (if TestCase_less (fst q) (fst r) then q # insert_case r qs else r # q # qs)"

fun sort_cases :: "(TestCase \<times> 'b) list \<Rightarrow> (TestCase \<times> 'b) list" where
  "sort_cases [] = []"
| "sort_cases (r # rs) = insert_case r (sort_cases rs)"

text \<open>
  Modelled from the spec: \<^verbatim>\<open>TestApp::execute\<close>, defined in a file that is not among the
  sources. By the spec it obtains the registered cases, sorts them by name in ascending
  order and runs them in that order. The registry is the list of the cases in the order
  of their registration.
\<close>

definition execute ::
  "('a::linordered_idom) operand \<Rightarrow> (TestCase \<times> 'a stmt list) list \<Rightarrow> TestCase list \<times> string"
where
  "execute ops registry = run_cases ops (sort_cases registry) []"

text \<open>
  Modelled from the spec: the two sums of the aggregate weighted score that
  \<^verbatim>\<open>TestApp::execute\<close>, defined in a file that is not among the sources, computes after
  the loop. A case with a check adds its weight times its pass ratio to the score earned
  and its weight to the score possible; a case with no check adds nothing to either.
\<close>

fun score_sums :: "TestCase list \<Rightarrow> real \<times> real \<Rightarrow> real \<times> real" where
  "score_sums [] acc = acc"
| "score_sums (c # cs) (earned, possible) =
     (if nChecked_m c \<noteq> 0
      then score_sums cs
             (earned + weight_m c * (real (unat (nPassed_m c)) / real (unat (nChecked_m c))),
              possible + weight_m c)
      else score_sums cs (earned, possible))"

text \<open>
  Modelled from the spec: the aggregate weighted score of \<^verbatim>\<open>TestApp::execute\<close>, the
  quotient of the two sums. The spec gives the quotient no value when no case has a
  check; the result is \<open>None\<close> there.
\<close>

definition weighted_score :: "TestCase list \<Rightarrow> real option" where
  "weighted_score cs =
     (case score_sums cs (0, 0) of
        (earned, possible) \<Rightarrow> if possible = 0 then None else Some (earned / possible))"

section \<open>Properties of the comparison operators\<close>

lemma string_compare_Less: "string_compare xs ys = Less \<longleftrightarrow> xs < ys"
  by (induction xs ys rule: string_compare.induct)
     (auto simp: less_char_def of_char_eq_iff)

lemma string_compare_Greater: "string_compare xs ys = Greater \<longleftrightarrow> ys < xs"
  by (induction xs ys rule: string_compare.induct)
     (auto simp: less_char_def of_char_eq_iff)

lemma string_compare_Equivalent: "string_compare xs ys = Equivalent \<longleftrightarrow> xs = ys"
  by (induction xs ys rule: string_compare.induct)
     (auto simp: of_char_eq_iff)

text \<open>
  Claim C9: the equality and ordering operators of TestCase compare the names alone.
  Two cases are equal exactly when their names are equal; the result of \<^verbatim>\<open><=>\<close> is the
  lexicographic order of the names, a strict total order that is irreflexive and
  transitive, with equality reflexive; and no counter or weight changes a result.
\<close>

theorem TestCase_compare_by_name:
  "(TestCase_eq a b \<longleftrightarrow> name_m a = name_m b)
   \<and> (TestCase_spaceship a b = Less \<longleftrightarrow> name_m a < name_m b)
   \<and> (TestCase_spaceship a b = Equivalent \<longleftrightarrow> name_m a = name_m b)
   \<and> (TestCase_spaceship a b = Greater \<longleftrightarrow> name_m b < name_m a)
   \<and> (TestCase_less a b \<longleftrightarrow> name_m a < name_m b)
   \<and> (TestCase_greater a b \<longleftrightarrow> name_m b < name_m a)
   \<and> \<not> TestCase_less a a
   \<and> TestCase_eq a a
   \<and> (TestCase_less a b \<and> TestCase_less b c \<longrightarrow> TestCase_less a c)
   \<and> (TestCase_less a b \<longrightarrow> \<not> TestCase_less b a \<and> \<not> TestCase_eq a b)
   \<and> (TestCase_less a b \<or> TestCase_eq a b \<or> TestCase_less b a)
   \<and> TestCase_spaceship (a\<lparr>nChecked_m := k, nPassed_m := p, weight_m := w\<rparr>) b
       = TestCase_spaceship a b
   \<and> TestCase_spaceship a (b\<lparr>nChecked_m := k, nPassed_m := p, weight_m := w\<rparr>)
       = TestCase_spaceship a b
   \<and> TestCase_eq (a\<lparr>nChecked_m := k, nPassed_m := p, weight_m := w\<rparr>) b = TestCase_eq a b
   \<and> TestCase_eq a (b\<lparr>nChecked_m := k, nPassed_m := p, weight_m := w\<rparr>) = TestCase_eq a b"
  by (auto simp: TestCase_eq_def TestCase_less_def TestCase_greater_def TestCase_spaceship_def
        string_compare_Less string_compare_Greater string_compare_Equivalent)

theorem TestCase_compare_by_name_witness:
  "(let a = \<lparr>name_m = ''Apple'', nChecked_m = 4, nPassed_m = 3, weight_m = 2\<rparr>;
        b = \<lparr>name_m = ''Zebra'', nChecked_m = 0, nPassed_m = 0, weight_m = 1\<rparr>;
        c = \<lparr>name_m = ''Zebras'', nChecked_m = 2, nPassed_m = 2, weight_m = 5\<rparr>;
        a' = \<lparr>name_m = ''Apple'', nChecked_m = 9, nPassed_m = 1, weight_m = 7\<rparr>
    in TestCase_less a b \<and> TestCase_less b c \<and> TestCase_less a c
     \<and> \<not> TestCase_less b a \<and> \<not> TestCase_eq a b
     \<and> TestCase_eq a a' \<and> TestCase_spaceship a a' = Equivalent
     \<and> TestCase_spaceship c b = Greater)"
  using TestCase_compare_by_name
          [where a = "\<lparr>name_m = ''Apple'', nChecked_m = 4, nPassed_m = 3, weight_m = 2\<rparr>"
             and b = "\<lparr>name_m = ''Zebra'', nChecked_m = 0, nPassed_m = 0, weight_m = 1\<rparr>"
             and c = "\<lparr>name_m = ''Zebras'', nChecked_m = 2, nPassed_m = 2, weight_m = 5\<rparr>"
             and k = 9 and p = 1 and w = 7]
  by (simp add: Let_def TestCase_eq_def TestCase_less_def TestCase_spaceship_def)

section \<open>Properties of the check services\<close>

lemma exact_sel [simp]:
  "put_of (exact put) = put"
  "minus_of (exact put) = (\<lambda>x y. x - y)"
  "abs_of (exact put) = (\<lambda>x. \<bar>x\<bar>)"
  by (simp_all add: exact_def)

lemma on_current_sel [simp]:
  "currentCase (on_current f app) = f (currentCase app)"
  "cout (on_current f app) = cout app"
  by (simp_all add: on_current_def)

lemma display_put_sel [simp]:
  "currentCase (display_put s app) = currentCase app"
  "cout (display_put s app) = cout app @ s"
  by (simp_all add: display_put_def)

lemma add_check_sel [simp]:
  "nChecked_m (add_check t) = nChecked_m t + 1"
  "nPassed_m (add_check t) = nPassed_m t"
  "name_m (add_check t) = name_m t"
  "weight_m (add_check t) = weight_m t"
  by (simp_all add: add_check_def)

lemma add_passed_sel [simp]:
  "nChecked_m (add_passed t) = nChecked_m t"
  "nPassed_m (add_passed t) = nPassed_m t + 1"
  "name_m (add_passed t) = name_m t"
  "weight_m (add_passed t) = weight_m t"
  by (simp_all add: add_passed_def)

lemma sublist_here: "sublist xs (xs @ ys)"
  by (rule sublist_append_rightI)

lemma sublist_later: "sublist xs ys \<Longrightarrow> sublist xs (zs @ ys)"
  by (metis sublist_appendI sublist_order.order_trans sublist_append_leftI)

text \<open>
  Claim C6: a call of \<^verbatim>\<open>check_equal\<close> increments the checked counter by one and compares
  the operands with their equality. When they are equal the passed counter is
  incremented and nothing is written to the display; when they differ the passed counter
  is left as it was and the diagnostic written after the location tag is the quoted text
  of the left operand, its value in brackets, \<^verbatim>\<open>!=\<close>, the quoted text of the right operand
  and its value in brackets.
\<close>

theorem check_equal_spec:
  "(let t = currentCase app;
        app' = check_equal put lhs rhs lhsStr rhsStr fname lno app;
        t' = currentCase app';
        diagnostic = dquote @ lhsStr @ dquote @ '' ['' @ put lhs @ ''] != '' @
                     dquote @ rhsStr @ dquote @ '' ['' @ put rhs @ '']'' @ newline
    in nChecked_m t' = nChecked_m t + 1
     \<and> (nPassed_m t' = nPassed_m t + 1 \<longleftrightarrow> lhs = rhs)
     \<and> (lhs = rhs \<longrightarrow> cout app' = cout app)
     \<and> (lhs \<noteq> rhs \<longrightarrow> nPassed_m t' = nPassed_m t
          \<and> cout app' = cout app @ output_check_location fname lno @ diagnostic)
     \<and> sublist lhsStr diagnostic \<and> sublist (put lhs) diagnostic
     \<and> sublist rhsStr diagnostic \<and> sublist (put rhs) diagnostic)"
  unfolding Let_def
  apply (intro conjI)
  subgoal by (simp add: check_equal_def Let_def)
  subgoal by (simp add: check_equal_def Let_def)
  subgoal by (simp add: check_equal_def Let_def)
  subgoal by (simp add: check_equal_def Let_def)
  by (intro sublist_here sublist_later)+

theorem check_equal_spec_witness:
  "check_equal show_int 5 5 ''a'' ''5'' ''t.cpp'' 12 \<lparr>currentCase = new_TestCase ''Equal'' 1, cout = []\<rparr>
     = \<lparr>currentCase = \<lparr>name_m = ''Equal'', nChecked_m = 1, nPassed_m = 1, weight_m = 1\<rparr>, cout = []\<rparr>
   \<and> check_equal show_int 5 6 ''a'' ''6'' ''t.cpp'' 12 \<lparr>currentCase = new_TestCase ''Equal'' 1, cout = []\<rparr>
     = \<lparr>currentCase = \<lparr>name_m = ''Equal'', nChecked_m = 1, nPassed_m = 0, weight_m = 1\<rparr>,
        cout = ''t.cpp(12): '' @ dquote @ ''a'' @ dquote @ '' [5] != '' @ dquote @ ''6'' @ dquote @ '' [6]'' @ newline\<rparr>"
  using check_equal_spec [where put = show_int and lhs = 5 and rhs = 5 and lhsStr = "''a''"
          and rhsStr = "''5''" and fname = "''t.cpp''" and lno = 12
          and app = "\<lparr>currentCase = new_TestCase ''Equal'' 1, cout = []\<rparr>"]
        check_equal_spec [where put = show_int and lhs = 5 and rhs = 6 and lhsStr = "''a''"
          and rhsStr = "''6''" and fname = "''t.cpp''" and lno = 12
          and app = "\<lparr>currentCase = new_TestCase ''Equal'' 1, cout = []\<rparr>"]
  by (simp add: check_equal_def new_TestCase_def on_current_def display_put_def output_check_location_def show_int_def show_nat.simps digit_char_def)

text \<open>
  Claim C4: a call of \<^verbatim>\<open>check_close_within\<close> increments the checked counter by one, and
  it increments the passed counter exactly when its condition holds. Where the
  subtraction of the operand type is exact and \<^verbatim>\<open>abs\<close> is its absolute value, the
  condition is that the absolute difference of the operands is at most the absolute
  value of the minimum, and a negative minimum gives the result of its absolute value.
  With the operands 5.0 and 5.05 and the minimum 0.1 the check then passes, with 5.0 and
  5.2 it fails.
\<close>

theorem check_close_within_spec:
  "(let t = currentCase app;
        app' = check_close_within ops lhs rhs minimum lhsStr rhsStr minimumStr fname lno app;
        t' = currentCase app';
        condition = (abs_of ops (minus_of ops lhs rhs) \<le> abs_of ops minimum)
    in nChecked_m t' = nChecked_m t + 1
     \<and> (nPassed_m t' = nPassed_m t + 1 \<longleftrightarrow> condition)
     \<and> (nPassed_m t' = nPassed_m t \<longleftrightarrow> \<not> condition)
     \<and> (minus_of ops = (\<lambda>x y. x - y) \<and> abs_of ops = (\<lambda>x. \<bar>x\<bar>) \<longrightarrow>
          (condition \<longleftrightarrow> \<bar>lhs - rhs\<bar> \<le> \<bar>minimum\<bar>)
        \<and> (nPassed_m t' = nPassed_m t + 1 \<longleftrightarrow> \<bar>lhs - rhs\<bar> \<le> \<bar>minimum\<bar>)
        \<and> (nPassed_m t' = nPassed_m t \<longleftrightarrow> \<not> \<bar>lhs - rhs\<bar> \<le> \<bar>minimum\<bar>)
        \<and> check_close_within ops lhs rhs (- minimum) lhsStr rhsStr minimumStr fname lno app
            = app'))"
  by (simp add: check_close_within_def Let_def)

text \<open>
  The counters do not depend on what is written for a value; in the instance below
  nothing is written for one.
\<close>

theorem check_close_within_spec_witness:
  "(let app = \<lparr>currentCase = new_TestCase ''Close'' 1, cout = []\<rparr>;
        ops = exact (\<lambda>x :: real. []);
        counters = (\<lambda>a. (nChecked_m (currentCase a), nPassed_m (currentCase a)))
    in minus_of ops = (\<lambda>x y. x - y) \<and> abs_of ops = (\<lambda>x. \<bar>x\<bar>)
     \<and> counters (check_close_within ops 5.0 5.05 0.1 ''a'' ''5.05'' ''0.1'' ''t.cpp'' 20 app) = (1, 1)
     \<and> counters (check_close_within ops 5.0 5.2 0.1 ''a'' ''5.2'' ''0.1'' ''t.cpp'' 21 app) = (1, 0)
     \<and> counters (check_close_within ops 5.0 5.05 (- 0.1) ''a'' ''5.05'' ''-0.1'' ''t.cpp'' 22 app) = (1, 1))"
  using check_close_within_spec [where ops = "exact (\<lambda>x :: real. [])" and lhs = "5.0"
          and rhs = "5.05" and minimum = "0.1" and lhsStr = "''a''" and rhsStr = "''5.05''"
          and minimumStr = "''0.1''" and fname = "''t.cpp''" and lno = 20
          and app = "\<lparr>currentCase = new_TestCase ''Close'' 1, cout = []\<rparr>"]
  by (simp add: check_close_within_def new_TestCase_def Let_def)

text \<open>
  The hypothesis on \<^verbatim>\<open>abs\<close> is needed. Where the call resolves to \<^verbatim>\<open>int abs(int)\<close>, the
  difference 0.2 and the minimum 0.1 both become 0, and the check of 5.0 against 5.2
  within 0.1 passes.
\<close>

lemma check_close_within_truncating:
  "nPassed_m (currentCase (check_close_within (truncating put) 5.0 5.2 0.1
      ''a'' ''5.2'' ''0.1'' ''t.cpp'' 21 \<lparr>currentCase = new_TestCase ''Close'' 1, cout = []\<rparr>))
   = 1"
  by (simp add: check_close_within_def truncating_def new_TestCase_def Let_def)

text \<open>
  Claim C8, as the code has it: the diagnostic of a failing \<^verbatim>\<open>check_close_within\<close> holds
  the source texts of the two operands and of the minimum, then the values of the two
  operands written as a difference between bars, and the absolute value of the minimum.
  The difference is written as that expression of the two values; its computed value is
  not written.
\<close>

theorem check_close_within_diagnostic:
  "\<not> abs_of ops (minus_of ops lhs rhs) \<le> abs_of ops minimum \<Longrightarrow>
   (let app' = check_close_within ops lhs rhs minimum lhsStr rhsStr minimumStr fname lno app;
        diagnostic = ''difference('' @ lhsStr @ '', '' @ rhsStr @ '') > '' @ minimumStr @
              '' ==> '' @ tab @ ''|'' @ put_of ops lhs @ '' - '' @ put_of ops rhs @ ''| > '' @
              put_of ops (abs_of ops minimum) @ newline
    in cout app' = cout app @ output_check_location fname lno @ diagnostic
     \<and> sublist lhsStr diagnostic \<and> sublist rhsStr diagnostic \<and> sublist minimumStr diagnostic
     \<and> sublist (put_of ops lhs) diagnostic \<and> sublist (put_of ops rhs) diagnostic
     \<and> sublist (put_of ops (abs_of ops minimum)) diagnostic)"
  unfolding Let_def
  apply (intro conjI)
  subgoal by (simp add: check_close_within_def Let_def)
  by (intro sublist_here sublist_later)+

theorem check_close_within_diagnostic_witness:
  "\<not> abs_of (exact show_int) (minus_of (exact show_int) 5 8) \<le> abs_of (exact show_int) 1
   \<and> \<not> \<bar>5 - 8\<bar> \<le> \<bar>1 :: int\<bar>
   \<and> cout (check_close_within (exact show_int) 5 8 1 ''5'' ''8'' ''1'' ''t.cpp'' 7
             \<lparr>currentCase = new_TestCase ''Close'' 1, cout = []\<rparr>)
       = ''t.cpp(7): difference(5, 8) > 1 ==> '' @ tab @ ''|5 - 8| > 1'' @ newline"
  using check_close_within_diagnostic [where ops = "exact show_int" and lhs = 5 and rhs = 8
          and minimum = 1 and lhsStr = "''5''" and rhsStr = "''8''" and minimumStr = "''1''"
          and fname = "''t.cpp''" and lno = 7
          and app = "\<lparr>currentCase = new_TestCase ''Close'' 1, cout = []\<rparr>"]
  by (simp add: Let_def output_check_location_def show_int_def show_nat.simps digit_char_def)

text \<open>
  The claim as the spec states it asks for the computed absolute difference in the
  diagnostic. For the operands 5 and 8 and the minimum 1 the check fails, the difference
  is 3, and no 3 stands in what is written.
\<close>

theorem check_close_within_difference_counterexample:
  "\<not> \<bar>5 - 8\<bar> \<le> \<bar>1 :: int\<bar>
   \<and> \<not> sublist (show_int \<bar>5 - 8\<bar>)
         (cout (check_close_within (exact show_int) 5 8 1 ''5'' ''8'' ''1'' ''t.cpp'' 7
             \<lparr>currentCase = new_TestCase ''Close'' 1, cout = []\<rparr>))"
  by (simp add: check_close_within_def Let_def output_check_location_def show_int_def
        show_nat.simps digit_char_def tab_def newline_def sublist_code)

text \<open>
  Claim C3, as the code has it: \<^verbatim>\<open>GATS_CHECK_THROW\<close> increments the checked counter by
  one. The passed counter is incremented exactly when the operation throws an exception
  of the expected type, and then nothing is written. When the operation throws an
  exception of another type the passed counter is left as it was and a diagnostic that
  names the expected type as not thrown is written, and no other. When the operation
  throws nothing the passed counter is left as it was and the diagnostic that no
  exception was thrown is written.
\<close>

theorem GATS_CHECK_THROW_spec:
  "(let t = currentCase app;
        app' = GATS_CHECK_THROW operation expectedStr fname lno app;
        t' = currentCase app'
    in nChecked_m t' = nChecked_m t + 1
     \<and> (nPassed_m t' = nPassed_m t + 1 \<longleftrightarrow> operation = Throws_expected)
     \<and> (nPassed_m t' = nPassed_m t \<longleftrightarrow> operation \<noteq> Throws_expected)
     \<and> cout app' =
         (case operation of
            Throws_expected \<Rightarrow> cout app
          | Throws_other \<Rightarrow>
              cout app @ output_check_location fname lno @
              ''unknown exception '' @ dquote @ expectedStr @ dquote @ '' not thrown'' @ newline
          | No_throw \<Rightarrow>
              cout app @ output_check_location fname lno @
              ''no exception thrown, expecting '' @ dquote @ expectedStr @ dquote @ newline))"
  by (cases operation) (simp_all add: GATS_CHECK_THROW_def Let_def)

theorem GATS_CHECK_THROW_spec_witness:
  "(let app = \<lparr>currentCase = new_TestCase ''Throw'' 1, cout = []\<rparr>;
        e = ''std::exception''
    in GATS_CHECK_THROW Throws_expected e ''t.cpp'' 30 app =
         \<lparr>currentCase = \<lparr>name_m = ''Throw'', nChecked_m = 1, nPassed_m = 1, weight_m = 1\<rparr>,
          cout = []\<rparr>
     \<and> GATS_CHECK_THROW Throws_other e ''t.cpp'' 30 app =
         \<lparr>currentCase = \<lparr>name_m = ''Throw'', nChecked_m = 1, nPassed_m = 0, weight_m = 1\<rparr>,
          cout = ''t.cpp(30): unknown exception '' @ dquote @ ''std::exception'' @ dquote @
                 '' not thrown'' @ newline\<rparr>
     \<and> GATS_CHECK_THROW No_throw e ''t.cpp'' 30 app =
         \<lparr>currentCase = \<lparr>name_m = ''Throw'', nChecked_m = 1, nPassed_m = 0, weight_m = 1\<rparr>,
          cout = ''t.cpp(30): no exception thrown, expecting '' @ dquote @ ''std::exception'' @
                 dquote @ newline\<rparr>)"
  using GATS_CHECK_THROW_spec [where operation = Throws_other and expectedStr = "''std::exception''"
          and fname = "''t.cpp''" and lno = 30
          and app = "\<lparr>currentCase = new_TestCase ''Throw'' 1, cout = []\<rparr>"]
  by (simp add: GATS_CHECK_THROW_def Let_def new_TestCase_def on_current_def display_put_def
        add_check_def add_passed_def output_check_location_def show_int_def show_nat.simps
        digit_char_def)

text \<open>
  The claim as the spec states it counts an exception of another type as passed. The
  passed counter of a new case is not incremented by such a check.
\<close>

theorem GATS_CHECK_THROW_other_counterexample:
  "nPassed_m (currentCase (GATS_CHECK_THROW Throws_other ''std::exception'' ''t.cpp'' 30
      \<lparr>currentCase = new_TestCase ''Throw'' 1, cout = []\<rparr>))
   \<noteq> nPassed_m (currentCase \<lparr>currentCase = new_TestCase ''Throw'' 1, cout = []\<rparr>) + 1"
  by (simp add: GATS_CHECK_THROW_def Let_def new_TestCase_def)

section \<open>Properties of test bodies\<close>

text \<open>What one macro invocation does to the counters, the name and the weight.\<close>

lemma exec_flow: "fst (exec ops s app) = (if is_Fail s then Returns else Falls_through)"
  by (cases s) simp_all

lemma GATS_CHECK_THROW_counters:
  "nChecked_m (currentCase (GATS_CHECK_THROW r e f l app)) = nChecked_m (currentCase app) + 1"
  "nPassed_m (currentCase (GATS_CHECK_THROW r e f l app)) =
     (if r = Throws_expected then nPassed_m (currentCase app) + 1 else nPassed_m (currentCase app))"
  "name_m (currentCase (GATS_CHECK_THROW r e f l app)) = name_m (currentCase app)"
  "weight_m (currentCase (GATS_CHECK_THROW r e f l app)) = weight_m (currentCase app)"
  by (cases r; simp add: GATS_CHECK_THROW_def Let_def)+

lemma exec_nChecked:
  "nChecked_m (currentCase (snd (exec ops s app))) = nChecked_m (currentCase app) + 1"
  by (cases s)
     (simp_all add: GATS_CHECK_def GATS_CHECK_MESSAGE_def GATS_CHECK_EQUAL_def
        GATS_CHECK_WITHIN_def GATS_FAIL_def check_def check_message_def check_equal_def
        check_close_within_def GATS_CHECK_THROW_counters Let_def)

lemma exec_nPassed:
  "nPassed_m (currentCase (snd (exec ops s app))) = nPassed_m (currentCase app) \<or>
   nPassed_m (currentCase (snd (exec ops s app))) = nPassed_m (currentCase app) + 1"
  by (cases s)
     (simp_all add: GATS_CHECK_def GATS_CHECK_MESSAGE_def GATS_CHECK_EQUAL_def
        GATS_CHECK_WITHIN_def GATS_FAIL_def check_def check_message_def check_equal_def
        check_close_within_def GATS_CHECK_THROW_counters Let_def)

lemma exec_Fail_nPassed:
  "is_Fail s \<Longrightarrow> nPassed_m (currentCase (snd (exec ops s app))) = nPassed_m (currentCase app)"
  by (cases s) (simp_all add: GATS_FAIL_def)

lemma exec_name_weight:
  "name_m (currentCase (snd (exec ops s app))) = name_m (currentCase app)"
  "weight_m (currentCase (snd (exec ops s app))) = weight_m (currentCase app)"
  by (cases s;
      simp add: GATS_CHECK_def GATS_CHECK_MESSAGE_def GATS_CHECK_EQUAL_def
        GATS_CHECK_WITHIN_def GATS_FAIL_def check_def check_message_def check_equal_def
        check_close_within_def GATS_CHECK_THROW_counters Let_def)+

text \<open>
  A body runs up to its first \<^verbatim>\<open>GATS_FAIL\<close>. Each invocation it runs adds one to the
  checked counter and at most one to the passed counter, in arithmetic modulo \<open>2 ^ 64\<close>.
\<close>

lemma run_body_Cons:
  "run_body ops (s # ss) app =
     (if is_Fail s then snd (exec ops s app) else run_body ops ss (snd (exec ops s app)))"
  using exec_flow [of ops s app]
  by (cases "exec ops s app") (auto split: flow.splits)

lemma run_body_append:
  "run_body ops (pre @ ss) app =
     (if list_ex is_Fail pre then run_body ops pre app
      else run_body ops ss (run_body ops pre app))"
  by (induction pre arbitrary: app) (simp_all add: run_body_Cons del: run_body.simps(2))

lemma run_body_name_weight:
  "name_m (currentCase (run_body ops ss app)) = name_m (currentCase app)"
  "weight_m (currentCase (run_body ops ss app)) = weight_m (currentCase app)"
  by (induction ss arbitrary: app; simp add: run_body_Cons exec_name_weight del: run_body.simps(2))+

lemma run_body_counters:
  "\<exists>k p. p \<le> k \<and> k \<le> length ss
     \<and> (\<not> list_ex is_Fail ss \<longrightarrow> k = length ss)
     \<and> nChecked_m (currentCase (run_body ops ss app)) = nChecked_m (currentCase app) + of_nat k
     \<and> nPassed_m (currentCase (run_body ops ss app)) = nPassed_m (currentCase app) + of_nat p"
proof (induction ss arbitrary: app)
  case Nil
  show ?case by (rule exI [of _ 0], rule exI [of _ 0]) simp
next
  case (Cons s ss)
  let ?app1 = "snd (exec ops s app)"
  have c1: "nChecked_m (currentCase ?app1) = nChecked_m (currentCase app) + 1"
    by (rule exec_nChecked)
  have "\<exists>d::nat. d \<le> 1 \<and>
      nPassed_m (currentCase ?app1) = nPassed_m (currentCase app) + of_nat d"
    using exec_nPassed [of ops s app]
  proof
    assume "nPassed_m (currentCase ?app1) = nPassed_m (currentCase app)"
    then show ?thesis by (intro exI [of _ 0]) simp
  next
    assume "nPassed_m (currentCase ?app1) = nPassed_m (currentCase app) + 1"
    then show ?thesis by (intro exI [of _ 1]) simp
  qed
  then obtain d :: nat where d: "d \<le> 1"
    and p1: "nPassed_m (currentCase ?app1) = nPassed_m (currentCase app) + of_nat d"
    by blast
  show ?case
  proof (cases "is_Fail s")
    case True
    with exec_Fail_nPassed [of s ops app] c1
    show ?thesis
      by (intro exI [of _ 1] exI [of _ 0]) (simp add: run_body_Cons del: run_body.simps(2))
  next
    case False
    from Cons.IH [of ?app1] obtain k p where kp: "p \<le> k" "k \<le> length ss"
      "\<not> list_ex is_Fail ss \<longrightarrow> k = length ss"
      "nChecked_m (currentCase (run_body ops ss ?app1)) = nChecked_m (currentCase ?app1) + of_nat k"
      "nPassed_m (currentCase (run_body ops ss ?app1)) = nPassed_m (currentCase ?app1) + of_nat p"
      by blast
    with False c1 p1 d show ?thesis
      by (intro exI [of _ "Suc k"] exI [of _ "d + p"])
         (simp add: run_body_Cons del: run_body.simps(2))
  qed
qed

lemma run_body_first_Fail:
  assumes "list_ex is_Fail body"
  shows "\<exists>pre s post. body = pre @ s # post \<and> is_Fail s \<and> \<not> list_ex is_Fail pre
           \<and> run_body ops body app = snd (exec ops s (run_body ops pre app))"
proof -
  from assms have "\<exists>x\<in>set body. is_Fail x"
    by (simp add: list_ex_iff)
  from split_list_first_prop [OF this] obtain pre s post
    where split: "body = pre @ s # post" "is_Fail s" "\<forall>y\<in>set pre. \<not> is_Fail y"
    by blast
  then have none: "\<not> list_ex is_Fail pre"
    by (simp add: list_ex_iff)
  from split none have "run_body ops body app = snd (exec ops s (run_body ops pre app))"
    by (simp add: run_body_append run_body_Cons del: run_body.simps(2))
  with split(1,2) none show ?thesis by blast
qed

lemma unat_plus_of_nat:
  "unat (c :: 64 word) + n < 2 ^ 64 \<Longrightarrow> unat (c + of_nat n) = unat c + n"
  by (simp add: unat_word_ariths unat_of_nat)

lemma run_body_failing_equal:
  "x \<noteq> y \<Longrightarrow>
   nChecked_m (currentCase (run_body ops (replicate n (Check_equal x y xs ys f l)) app))
     = nChecked_m (currentCase app) + of_nat n
   \<and> nPassed_m (currentCase (run_body ops (replicate n (Check_equal x y xs ys f l)) app))
     = nPassed_m (currentCase app)"
  by (induction n arbitrary: app)
     (simp_all add: run_body_Cons GATS_CHECK_EQUAL_def check_equal_def Let_def
        del: run_body.simps(2))

text \<open>
  Claim C7: a \<^verbatim>\<open>GATS_FAIL\<close> in a test body records the failure in the checked counter and
  writes its message after the location tag; the body stops there, so that the body
  with the invocations coded after the \<^verbatim>\<open>GATS_FAIL\<close> leaves the state that the body
  without them leaves: none of them is run, and none changes a counter or the display.
\<close>

theorem GATS_FAIL_aborts_body:
  "run_body ops (pre @ Fail msg fname lno # post) app
     = run_body ops (pre @ [Fail msg fname lno]) app
   \<and> (\<not> list_ex is_Fail pre \<longrightarrow>
        run_body ops (pre @ Fail msg fname lno # post) app
          = GATS_FAIL msg fname lno (run_body ops pre app))
   \<and> (let app1 = run_body ops pre app;
           app' = GATS_FAIL msg fname lno app1
       in nChecked_m (currentCase app') = nChecked_m (currentCase app1) + 1
        \<and> nPassed_m (currentCase app') = nPassed_m (currentCase app1)
        \<and> cout app' = cout app1 @ output_check_location fname lno @ msg @ newline)"
  by (simp add: run_body_append run_body_Cons GATS_FAIL_def Let_def del: run_body.simps(2))

theorem GATS_FAIL_aborts_body_witness:
  "\<not> list_ex is_Fail [Check_equal (1 :: int) 1 ''x'' ''1'' ''t.cpp'' 40]
   \<and> run_body (exact show_int)
        ([Check_equal 1 1 ''x'' ''1'' ''t.cpp'' 40] @ Fail ''stop'' ''t.cpp'' 41 #
         [Check_equal 1 2 ''x'' ''2'' ''t.cpp'' 42, Check_equal 1 1 ''x'' ''1'' ''t.cpp'' 43])
        \<lparr>currentCase = new_TestCase ''Abort'' 1, cout = []\<rparr>
      = \<lparr>currentCase = \<lparr>name_m = ''Abort'', nChecked_m = 2, nPassed_m = 1, weight_m = 1\<rparr>,
         cout = ''t.cpp(41): stop'' @ newline\<rparr>"
  using GATS_FAIL_aborts_body [where ops = "exact show_int"
          and pre = "[Check_equal 1 1 ''x'' ''1'' ''t.cpp'' 40]"
          and msg = "''stop''" and fname = "''t.cpp''" and lno = 41
          and post = "[Check_equal 1 2 ''x'' ''2'' ''t.cpp'' 42,
                       Check_equal 1 1 ''x'' ''1'' ''t.cpp'' 43]"
          and app = "\<lparr>currentCase = new_TestCase ''Abort'' 1, cout = []\<rparr>"]
  by (simp add: GATS_FAIL_def GATS_CHECK_EQUAL_def check_equal_def Let_def new_TestCase_def
        on_current_def display_put_def add_check_def output_check_location_def show_int_def
        show_nat.simps digit_char_def)

text \<open>
  Claim C5, as the code has it: each check primitive adds one to the checked counter and
  nothing or one to the passed counter. For a case whose passed counter is at most its
  checked counter, and a sequence of invocations that keeps the checked counter below
  \<open>2 ^ 64\<close>, the passed counter is at most the checked counter afterwards, neither
  counter has decreased, and the passed counter has grown by no more than the checked
  counter has.
\<close>

theorem counters_invariant:
  "unat (nPassed_m (currentCase app)) \<le> unat (nChecked_m (currentCase app)) \<Longrightarrow>
   unat (nChecked_m (currentCase app)) + length ss < 2 ^ 64 \<Longrightarrow>
   (let t = currentCase app;
        t' = currentCase (run_body ops ss app);
        t1 = currentCase (snd (exec ops s app))
    in nPassed_m t' \<le> nChecked_m t'
     \<and> nChecked_m t \<le> nChecked_m t'
     \<and> nPassed_m t \<le> nPassed_m t'
     \<and> unat (nPassed_m t') - unat (nPassed_m t) \<le> unat (nChecked_m t') - unat (nChecked_m t)
     \<and> nChecked_m t1 = nChecked_m t + 1
     \<and> (nPassed_m t1 = nPassed_m t \<or> nPassed_m t1 = nPassed_m t + 1))"
proof -
  assume inv: "unat (nPassed_m (currentCase app)) \<le> unat (nChecked_m (currentCase app))"
    and room: "unat (nChecked_m (currentCase app)) + length ss < 2 ^ 64"
  obtain k p where kp: "p \<le> k" "k \<le> length ss"
    and c: "nChecked_m (currentCase (run_body ops ss app))
              = nChecked_m (currentCase app) + of_nat k"
    and q: "nPassed_m (currentCase (run_body ops ss app))
              = nPassed_m (currentCase app) + of_nat p"
    using run_body_counters [of ss ops app] by blast
  have uc: "unat (nChecked_m (currentCase (run_body ops ss app)))
              = unat (nChecked_m (currentCase app)) + k"
    unfolding c using kp room by (intro unat_plus_of_nat) simp
  have uq: "unat (nPassed_m (currentCase (run_body ops ss app)))
              = unat (nPassed_m (currentCase app)) + p"
    unfolding q using kp room inv by (intro unat_plus_of_nat) simp
  show ?thesis
    using uc uq kp inv exec_nChecked [of ops s app] exec_nPassed [of ops s app]
    by (simp add: Let_def word_le_nat_alt)
qed

theorem counters_invariant_witness:
  "(let app = \<lparr>currentCase = new_TestCase ''Mixed'' 1, cout = []\<rparr>;
        ss = [Check_equal (1 :: int) 1 ''x'' ''1'' ''t.cpp'' 50,
              Check_within 5 8 1 ''5'' ''8'' ''1'' ''t.cpp'' 51,
              Check_throw Throws_other ''E'' ''t.cpp'' 52,
              Check_throw Throws_expected ''E'' ''t.cpp'' 53,
              Fail ''stop'' ''t.cpp'' 54,
              Check_equal 2 2 ''y'' ''2'' ''t.cpp'' 55];
        t' = currentCase (run_body (exact show_int) ss app)
    in unat (nPassed_m (currentCase app)) \<le> unat (nChecked_m (currentCase app))
     \<and> unat (nChecked_m (currentCase app)) + length ss < 2 ^ 64
     \<and> nChecked_m t' = 5 \<and> nPassed_m t' = 2 \<and> nPassed_m t' \<le> nChecked_m t')"
  using counters_invariant [where ops = "exact show_int"
          and app = "\<lparr>currentCase = new_TestCase ''Mixed'' 1, cout = []\<rparr>"
          and ss = "[Check_equal (1 :: int) 1 ''x'' ''1'' ''t.cpp'' 50,
              Check_within 5 8 1 ''5'' ''8'' ''1'' ''t.cpp'' 51,
              Check_throw Throws_other ''E'' ''t.cpp'' 52,
              Check_throw Throws_expected ''E'' ''t.cpp'' 53,
              Fail ''stop'' ''t.cpp'' 54,
              Check_equal 2 2 ''y'' ''2'' ''t.cpp'' 55]"
          and s = "Fail ''stop'' ''t.cpp'' 54"]
  by (simp add: Let_def new_TestCase_def GATS_FAIL_def GATS_CHECK_EQUAL_def check_equal_def
        GATS_CHECK_WITHIN_def check_close_within_def GATS_CHECK_THROW_def)

text \<open>
  The claim as the spec states it holds the invariant after any sequence of checks. The
  counters are of type \<^verbatim>\<open>std::uintmax_t\<close>: after one check that passes and \<open>2 ^ 64 - 1\<close>
  checks that fail, the checked counter of a new case is back at zero and the passed
  counter is one.
\<close>

theorem counters_wrap_counterexample:
  "nPassed_m (currentCase (run_body (exact show_int)
       (Check_equal 1 1 ''x'' ''1'' ''t.cpp'' 60 #
        replicate (2 ^ 64 - 1) (Check_equal 1 2 ''x'' ''2'' ''t.cpp'' 61))
       \<lparr>currentCase = new_TestCase ''Wrap'' 1, cout = []\<rparr>)) = 1
   \<and> nChecked_m (currentCase (run_body (exact show_int)
       (Check_equal 1 1 ''x'' ''1'' ''t.cpp'' 60 #
        replicate (2 ^ 64 - 1) (Check_equal 1 2 ''x'' ''2'' ''t.cpp'' 61))
       \<lparr>currentCase = new_TestCase ''Wrap'' 1, cout = []\<rparr>)) = 0"
proof -
  let ?app = "\<lparr>currentCase = new_TestCase ''Wrap'' 1, cout = []\<rparr>"
  let ?app1 = "snd (exec (exact show_int) (Check_equal 1 1 ''x'' ''1'' ''t.cpp'' 60) ?app)"
  have first: "nPassed_m (currentCase ?app1) = 1" "nChecked_m (currentCase ?app1) = 1"
    by (simp_all add: GATS_CHECK_EQUAL_def check_equal_def Let_def new_TestCase_def)
  have wrap: "(1 :: 64 word) + of_nat (2 ^ 64 - 1) = 0"
    by simp
  have rest: "nChecked_m (currentCase (run_body (exact show_int)
                 (replicate (2 ^ 64 - 1) (Check_equal 1 2 ''x'' ''2'' ''t.cpp'' 61)) ?app1))
               = nChecked_m (currentCase ?app1) + of_nat (2 ^ 64 - 1)
            \<and> nPassed_m (currentCase (run_body (exact show_int)
                 (replicate (2 ^ 64 - 1) (Check_equal 1 2 ''x'' ''2'' ''t.cpp'' 61)) ?app1))
               = nPassed_m (currentCase ?app1)"
    by (rule run_body_failing_equal) simp
  show ?thesis
    unfolding run_body_Cons is_Fail.simps if_False
    using rest first wrap by (simp only:)
qed

text \<open>
  Claim C10, as the code has it: \<^verbatim>\<open>GATS_FAIL\<close> adds one to the checked counter and leaves
  the passed counter as it was. A case whose passed counter is at most its checked
  counter, and whose body holds a \<^verbatim>\<open>GATS_FAIL\<close> and keeps the checked counter below
  \<open>2 ^ 64\<close>, ends with its passed counter strictly below its checked counter, so its
  counters do not show every check as passed.
\<close>

theorem GATS_FAIL_counts_as_failure:
  "nChecked_m (currentCase (GATS_FAIL msg fname lno app)) = nChecked_m (currentCase app) + 1
   \<and> nPassed_m (currentCase (GATS_FAIL msg fname lno app)) = nPassed_m (currentCase app)
   \<and> (list_ex is_Fail body
        \<and> unat (nPassed_m (currentCase app)) \<le> unat (nChecked_m (currentCase app))
        \<and> unat (nChecked_m (currentCase app)) + length body < 2 ^ 64
      \<longrightarrow> nPassed_m (currentCase (run_body ops body app))
            < nChecked_m (currentCase (run_body ops body app)))"
proof (intro conjI impI)
  show "nChecked_m (currentCase (GATS_FAIL msg fname lno app)) = nChecked_m (currentCase app) + 1"
    by (simp add: GATS_FAIL_def)
  show "nPassed_m (currentCase (GATS_FAIL msg fname lno app)) = nPassed_m (currentCase app)"
    by (simp add: GATS_FAIL_def)
next
  assume asm: "list_ex is_Fail body
        \<and> unat (nPassed_m (currentCase app)) \<le> unat (nChecked_m (currentCase app))
        \<and> unat (nChecked_m (currentCase app)) + length body < 2 ^ 64"
  then have "list_ex is_Fail body" by simp
  from run_body_first_Fail [OF this, of ops app]
  obtain pre s post where body: "body = pre @ s # post" and s: "is_Fail s"
    and pre: "\<not> list_ex is_Fail pre"
    and run: "run_body ops body app = snd (exec ops s (run_body ops pre app))"
    by blast
  obtain k p where kp: "p \<le> k" "k = length pre"
    and c: "nChecked_m (currentCase (run_body ops pre app))
              = nChecked_m (currentCase app) + of_nat k"
    and q: "nPassed_m (currentCase (run_body ops pre app))
              = nPassed_m (currentCase app) + of_nat p"
    using run_body_counters [of pre ops app] pre by blast
  have c': "nChecked_m (currentCase (run_body ops body app))
              = nChecked_m (currentCase app) + of_nat (Suc k)"
    unfolding run exec_nChecked c by simp
  have q': "nPassed_m (currentCase (run_body ops body app))
              = nPassed_m (currentCase app) + of_nat p"
    unfolding run using s q by (simp add: exec_Fail_nPassed)
  have uc: "unat (nChecked_m (currentCase (run_body ops body app)))
              = unat (nChecked_m (currentCase app)) + Suc k"
    unfolding c' using kp asm body by (intro unat_plus_of_nat) simp
  have uq: "unat (nPassed_m (currentCase (run_body ops body app)))
              = unat (nPassed_m (currentCase app)) + p"
    unfolding q' using kp asm body by (intro unat_plus_of_nat) simp
  show "nPassed_m (currentCase (run_body ops body app))
          < nChecked_m (currentCase (run_body ops body app))"
    using uc uq kp asm by (simp add: word_less_nat_alt)
qed

theorem GATS_FAIL_counts_as_failure_witness:
  "(let app = \<lparr>currentCase = new_TestCase ''Abort'' 1, cout = []\<rparr>;
        body = [Check_equal (1 :: int) 1 ''x'' ''1'' ''t.cpp'' 70,
                Check_equal 2 2 ''y'' ''2'' ''t.cpp'' 71,
                Fail ''stop'' ''t.cpp'' 72,
                Check_equal 3 3 ''z'' ''3'' ''t.cpp'' 73];
        t' = currentCase (run_body (exact show_int) body app)
    in list_ex is_Fail body
     \<and> unat (nPassed_m (currentCase app)) \<le> unat (nChecked_m (currentCase app))
     \<and> unat (nChecked_m (currentCase app)) + length body < 2 ^ 64
     \<and> nPassed_m t' = 2 \<and> nChecked_m t' = 3 \<and> nPassed_m t' < nChecked_m t')"
  using GATS_FAIL_counts_as_failure [where ops = "exact show_int"
          and app = "\<lparr>currentCase = new_TestCase ''Abort'' 1, cout = []\<rparr>"
          and body = "[Check_equal (1 :: int) 1 ''x'' ''1'' ''t.cpp'' 70,
                Check_equal 2 2 ''y'' ''2'' ''t.cpp'' 71,
                Fail ''stop'' ''t.cpp'' 72,
                Check_equal 3 3 ''z'' ''3'' ''t.cpp'' 73]"
          and msg = "''stop''" and fname = "''t.cpp''" and lno = 72]
  by (simp add: Let_def new_TestCase_def GATS_FAIL_def GATS_CHECK_EQUAL_def check_equal_def)

text \<open>
  The claim as the spec states it has every case that \<^verbatim>\<open>GATS_FAIL\<close> aborts end with
  fewer checks passed than checked. After \<open>2 ^ 64 - 1\<close> checks that fail, the \<^verbatim>\<open>GATS_FAIL\<close>
  of a new case takes the checked counter back to zero, where the passed counter is.
\<close>

theorem GATS_FAIL_wrap_counterexample:
  "nPassed_m (currentCase (run_body (exact show_int)
       (replicate (2 ^ 64 - 1) (Check_equal 1 2 ''x'' ''2'' ''t.cpp'' 80) @
        [Fail ''stop'' ''t.cpp'' 81])
       \<lparr>currentCase = new_TestCase ''Wrap'' 1, cout = []\<rparr>)) = 0
   \<and> nChecked_m (currentCase (run_body (exact show_int)
       (replicate (2 ^ 64 - 1) (Check_equal 1 2 ''x'' ''2'' ''t.cpp'' 80) @
        [Fail ''stop'' ''t.cpp'' 81])
       \<lparr>currentCase = new_TestCase ''Wrap'' 1, cout = []\<rparr>)) = 0"
proof -
  let ?app = "\<lparr>currentCase = new_TestCase ''Wrap'' 1, cout = []\<rparr>"
  let ?pre = "replicate (2 ^ 64 - 1) (Check_equal (1 :: int) 2 ''x'' ''2'' ''t.cpp'' 80)"
  have start: "nPassed_m (currentCase ?app) = 0" "nChecked_m (currentCase ?app) = 0"
    by (simp_all add: new_TestCase_def)
  have wrap: "(0 :: 64 word) + of_nat (2 ^ 64 - 1) + 1 = 0"
    by simp
  have pre: "nChecked_m (currentCase (run_body (exact show_int) ?pre ?app))
               = nChecked_m (currentCase ?app) + of_nat (2 ^ 64 - 1)
           \<and> nPassed_m (currentCase (run_body (exact show_int) ?pre ?app))
               = nPassed_m (currentCase ?app)"
    by (rule run_body_failing_equal) simp
  have no_Fail: "\<not> list_ex is_Fail ?pre"
    by (simp add: list_ex_iff)
  have run: "run_body (exact show_int) (?pre @ [Fail ''stop'' ''t.cpp'' 81]) ?app
               = GATS_FAIL ''stop'' ''t.cpp'' 81 (run_body (exact show_int) ?pre ?app)"
    using no_Fail by (simp only: run_body_append run_body_Cons if_False is_Fail.simps if_True exec.simps snd_conv)
  show ?thesis
    unfolding run using pre start wrap by (simp add: GATS_FAIL_def)
qed

section \<open>Properties of the driver\<close>

lemma run_cases_names:
  "map name_m (fst (run_cases ops cs out)) = map (\<lambda>r. name_m (fst r)) cs"
  by (induction ops cs out rule: run_cases.induct)
     (simp_all add: Let_def split_beta run_body_name_weight)

lemma not_TestCase_less: "\<not> TestCase_less b a \<longleftrightarrow> name_m a \<le> name_m b"
  by (simp add: TestCase_less_def TestCase_spaceship_def string_compare_Less not_less)

lemma insert_case_insort:
  "insert_case r qs = insort_key (\<lambda>r. name_m (fst r)) r qs"
  by (induction qs) (auto simp: not_TestCase_less [symmetric])

lemma sort_cases_sort_key:
  "sort_cases registry = sort_key (\<lambda>r. name_m (fst r)) registry"
  by (induction registry) (simp_all add: insert_case_insort)

lemma execute_sort_key:
  "execute ops registry = run_cases ops (sort_key (\<lambda>r. name_m (fst r)) registry) []"
  by (simp add: execute_def sort_cases_sort_key)

lemma names_sort_key:
  "map f (sort_key f xs) = sort (map f xs)"
proof -
  have "mset (map f (sort_key f xs)) = mset (map f xs)"
    by simp
  moreover have "sorted (map f (sort_key f xs))"
    by (rule sorted_sort_key)
  ultimately show ?thesis
    by (rule properties_for_sort [symmetric])
qed

lemma execute_names:
  "map name_m (fst (execute ops registry)) = sort (map (\<lambda>r. name_m (fst r)) registry)"
  by (simp add: execute_sort_key run_cases_names names_sort_key)

text \<open>
  What a body writes is appended to the display it finds, and the counters it leaves do
  not depend on that display: a case can be looked at as run alone on an empty display.
\<close>

lemma exec_frame:
  "exec ops s \<lparr>currentCase = c, cout = d\<rparr> =
     (fst (exec ops s \<lparr>currentCase = c, cout = []\<rparr>),
      \<lparr>currentCase = currentCase (snd (exec ops s \<lparr>currentCase = c, cout = []\<rparr>)),
       cout = d @ cout (snd (exec ops s \<lparr>currentCase = c, cout = []\<rparr>))\<rparr>)"
proof (cases s)
  case (Check_throw r e f l)
  then show ?thesis
    by (cases r)
       (simp_all add: GATS_CHECK_THROW_def Let_def on_current_def display_put_def)
qed (simp_all add: GATS_CHECK_def GATS_CHECK_MESSAGE_def GATS_CHECK_EQUAL_def
        GATS_CHECK_WITHIN_def GATS_FAIL_def check_def check_message_def check_equal_def
        check_close_within_def Let_def on_current_def display_put_def)

lemma run_body_frame:
  "run_body ops ss \<lparr>currentCase = c, cout = d\<rparr> =
     \<lparr>currentCase = currentCase (run_body ops ss \<lparr>currentCase = c, cout = []\<rparr>),
      cout = d @ cout (run_body ops ss \<lparr>currentCase = c, cout = []\<rparr>)\<rparr>"
proof (induction ss arbitrary: c d)
  case Nil
  show ?case by simp
next
  case (Cons s ss)
  let ?e = "snd (exec ops s \<lparr>currentCase = c, cout = []\<rparr>)"
  have step: "snd (exec ops s \<lparr>currentCase = c, cout = d\<rparr>)
                = \<lparr>currentCase = currentCase ?e, cout = d @ cout ?e\<rparr>"
    by (subst exec_frame) simp
  have whole: "?e = \<lparr>currentCase = currentCase ?e, cout = cout ?e\<rparr>"
    by simp
  show ?case
  proof (cases "is_Fail s")
    case True
    then show ?thesis
      by (simp add: run_body_Cons step del: run_body.simps(2))
  next
    case False
    have "run_body ops (s # ss) \<lparr>currentCase = c, cout = d\<rparr>
            = run_body ops ss \<lparr>currentCase = currentCase ?e, cout = d @ cout ?e\<rparr>"
      using False by (simp add: run_body_Cons step del: run_body.simps(2))
    moreover have "run_body ops ss ?e
            = run_body ops ss \<lparr>currentCase = currentCase ?e, cout = cout ?e\<rparr>"
      by (rule arg_cong [where f = "run_body ops ss"]) simp
    then have "run_body ops (s # ss) \<lparr>currentCase = c, cout = []\<rparr>
            = run_body ops ss \<lparr>currentCase = currentCase ?e, cout = cout ?e\<rparr>"
      using False by (simp only: run_body_Cons if_False)
    ultimately show ?thesis
      using Cons.IH [of "currentCase ?e" "d @ cout ?e"] Cons.IH [of "currentCase ?e" "cout ?e"]
      by simp
  qed
qed

lemma run_cases_eq:
  "run_cases ops cs out =
     (map (\<lambda>r. currentCase (run_body ops (snd r) \<lparr>currentCase = fst r, cout = []\<rparr>)) cs,
      out @ concat (map (\<lambda>r. cout (run_body ops (snd r) \<lparr>currentCase = fst r, cout = []\<rparr>)) cs))"
proof (induction ops cs out rule: run_cases.induct)
  case (1 ops out)
  show ?case by simp
next
  case (2 ops c body cs out)
  have frame: "run_body ops body \<lparr>currentCase = c, cout = out\<rparr> =
     \<lparr>currentCase = currentCase (run_body ops body \<lparr>currentCase = c, cout = []\<rparr>),
      cout = out @ cout (run_body ops body \<lparr>currentCase = c, cout = []\<rparr>)\<rparr>"
    by (rule run_body_frame)
  show ?case
    using "2.IH" [OF refl] by (simp add: Let_def split_beta frame)
qed

lemma run_body_all_checked:
  "\<not> list_ex is_Fail ss \<Longrightarrow>
   nChecked_m (currentCase (run_body ops ss app)) = nChecked_m (currentCase app) + of_nat (length ss)"
  using run_body_counters [of ss ops app] by auto

lemma filter_same_key:
  "distinct (map f xs) \<Longrightarrow> k \<in> set xs \<Longrightarrow> filter (\<lambda>x. f k = f x) xs = [k]"
proof (induction xs)
  case Nil
  then show ?case by simp
next
  case (Cons x xs)
  show ?case
  proof (cases "k = x")
    case True
    with Cons.prems have "filter (\<lambda>y. f k = f y) xs = []"
      by (auto simp: filter_empty_conv)
    with True show ?thesis by simp
  next
    case False
    with Cons.prems have kxs: "k \<in> set xs"
      by simp
    from Cons.prems have "f x \<notin> f ` set xs"
      by simp
    with kxs have "f k \<noteq> f x"
      by (metis imageI)
    with kxs Cons show ?thesis by simp
  qed
qed

lemma sort_key_permuted:
  assumes "mset ys = mset xs" and "distinct (map f xs)"
  shows "sort_key f ys = sort_key f xs"
proof (rule properties_for_sort_key)
  show "mset (sort_key f xs) = mset ys"
    using assms by simp
  show "sorted (map f (sort_key f xs))"
    by (rule sorted_sort_key)
  fix k assume "k \<in> set (sort_key f xs)"
  then have k: "k \<in> set xs" by simp
  have dys: "distinct (map f ys)"
    using assms by (metis distinct_map mset_eq_imp_distinct_iff mset_eq_setD)
  have dsort: "distinct (map f (sort_key f xs))"
    using assms(2) by (metis distinct_map distinct_sort set_sort)
  from k assms(1) have kys: "k \<in> set ys" by (metis mset_eq_setD)
  show "filter (\<lambda>x. f k = f x) (sort_key f xs) = filter (\<lambda>x. f k = f x) ys"
    using filter_same_key [OF dsort, of k] filter_same_key [OF dys kys] k by simp
qed

text \<open>
  Claim C2: the driver runs the registered cases in ascending lexicographic order of
  their names, whatever the order of their registration. The order of the run is the
  registry sorted by name, in which no case compares less than one before it. The display
  after the run is what the bodies write, one case after the other in that order, and the
  finished cases stand in that order with the counters their bodies left; where no body
  holds a \<^verbatim>\<open>GATS_FAIL\<close>, each has counted every check of its own body. A registry with the
  same cases in another order gives the same order of names, and for cases of distinct
  names the same display and counters. When Zebra is registered before Apple and a check
  fails in each, the diagnostic of Apple is written before the diagnostic of Zebra.
\<close>

theorem execute_order:
  "(let order = sort_cases registry;
        alone = (\<lambda>r. run_body ops (snd r) \<lparr>currentCase = fst r, cout = []\<rparr>)
    in order = sort_key (\<lambda>r. name_m (fst r)) registry
     \<and> mset order = mset registry
     \<and> sorted (map (\<lambda>r. name_m (fst r)) order)
     \<and> sorted_wrt (\<lambda>a b. \<not> TestCase_less (fst b) (fst a)) order
     \<and> snd (execute ops registry) = concat (map (\<lambda>r. cout (alone r)) order)
     \<and> fst (execute ops registry) = map (\<lambda>r. currentCase (alone r)) order
     \<and> (list_all (\<lambda>r. \<not> list_ex is_Fail (snd r)) registry \<longrightarrow>
          map nChecked_m (fst (execute ops registry))
            = map (\<lambda>r. nChecked_m (fst r) + of_nat (length (snd r))) order)
     \<and> map name_m (fst (execute ops registry)) = sort (map (\<lambda>r. name_m (fst r)) registry)
     \<and> sorted (map name_m (fst (execute ops registry)))
     \<and> sorted_wrt (\<lambda>a b. \<not> TestCase_less b a) (fst (execute ops registry))
     \<and> (mset registry' = mset registry \<longrightarrow>
          map name_m (fst (execute ops registry')) = map name_m (fst (execute ops registry)))
     \<and> (mset registry' = mset registry \<and> distinct (map (\<lambda>r. name_m (fst r)) registry) \<longrightarrow>
          execute ops registry' = execute ops registry))
   \<and> snd (execute (exact show_int)
        [(new_TestCase ''Zebra'' w, [Check_equal 1 2 ''z'' ''2'' ''z.cpp'' 3]),
         (new_TestCase ''Apple'' v, [Check_equal 3 4 ''a'' ''4'' ''a.cpp'' 5])])
      = ''a.cpp(5): '' @ dquote @ ''a'' @ dquote @ '' [3] != '' @ dquote @ ''4'' @ dquote @
          '' [4]'' @ newline @
        ''z.cpp(3): '' @ dquote @ ''z'' @ dquote @ '' [1] != '' @ dquote @ ''2'' @ dquote @
          '' [2]'' @ newline"
proof -
  let ?key = "\<lambda>r :: TestCase \<times> 'a stmt list. name_m (fst r)"
  let ?order = "sort_cases registry"
  have order: "?order = sort_key ?key registry"
    by (rule sort_cases_sort_key)
  let ?alone = "\<lambda>r. run_body ops (snd r) \<lparr>currentCase = fst r, cout = []\<rparr>"
  have perm: "mset ?order = mset registry"
    unfolding order by simp
  have sorted_keys: "sorted (map ?key ?order)"
    unfolding order by (rule sorted_sort_key)
  have by_less: "sorted_wrt (\<lambda>a b. \<not> TestCase_less (fst b) (fst a)) ?order"
    using sorted_keys by (simp add: sorted_map not_TestCase_less)
  have display: "snd (execute ops registry) = concat (map (\<lambda>r. cout (?alone r)) ?order)"
    by (simp add: execute_def run_cases_eq)
  have finished: "fst (execute ops registry) = map (\<lambda>r. currentCase (?alone r)) ?order"
    by (simp add: execute_def run_cases_eq)
  have checked: "map nChecked_m (fst (execute ops registry))
            = map (\<lambda>r. nChecked_m (fst r) + of_nat (length (snd r))) ?order"
    if "list_all (\<lambda>r. \<not> list_ex is_Fail (snd r)) registry"
  proof -
    have "\<And>r. r \<in> set ?order \<Longrightarrow> \<not> list_ex is_Fail (snd r)"
      using that unfolding order by (simp add: list_all_iff)
    then show ?thesis
      unfolding finished by (simp add: run_body_all_checked)
  qed
  have names: "map name_m (fst (execute ops registry)) = sort (map ?key registry)"
    by (rule execute_names)
  have sorted_names: "sorted (map name_m (fst (execute ops registry)))"
    unfolding names by (rule sorted_sort)
  have ran_by_less: "sorted_wrt (\<lambda>a b. \<not> TestCase_less b a) (fst (execute ops registry))"
    using sorted_names by (simp add: sorted_map not_TestCase_less)
  have same_names: "map name_m (fst (execute ops registry')) = map name_m (fst (execute ops registry))"
    if "mset registry' = mset registry"
  proof -
    have "sort (map ?key registry') = sort (map ?key registry)"
      using that by (intro properties_for_sort) simp_all
    then show ?thesis
      by (simp only: execute_names)
  qed
  have same_run: "execute ops registry' = execute ops registry"
    if "mset registry' = mset registry \<and> distinct (map ?key registry)"
  proof -
    from that have "sort_key ?key registry' = sort_key ?key registry"
      by (intro sort_key_permuted) simp_all
    then show ?thesis
      by (simp only: execute_sort_key)
  qed
  have example: "snd (execute (exact show_int)
        [(new_TestCase ''Zebra'' w, [Check_equal 1 2 ''z'' ''2'' ''z.cpp'' 3]),
         (new_TestCase ''Apple'' v, [Check_equal 3 4 ''a'' ''4'' ''a.cpp'' 5])])
      = ''a.cpp(5): '' @ dquote @ ''a'' @ dquote @ '' [3] != '' @ dquote @ ''4'' @ dquote @
          '' [4]'' @ newline @
        ''z.cpp(3): '' @ dquote @ ''z'' @ dquote @ '' [1] != '' @ dquote @ ''2'' @ dquote @
          '' [2]'' @ newline"
    by (simp add: execute_def TestCase_less_def TestCase_spaceship_def new_TestCase_def Let_def
          GATS_CHECK_EQUAL_def check_equal_def
          output_check_location_def show_int_def show_nat.simps digit_char_def)
  show ?thesis
    unfolding Let_def
    using order perm sorted_keys by_less display finished checked names sorted_names ran_by_less
      same_names same_run example
    by blast
qed

theorem execute_order_witness:
  "(let zebra_first =
          [(new_TestCase ''Zebra'' 1, [Check_equal (1 :: int) 2 ''z'' ''2'' ''z.cpp'' 3]),
           (new_TestCase ''Apple'' 1, [Check_equal 3 4 ''a'' ''4'' ''a.cpp'' 5])];
        apple_first =
          [(new_TestCase ''Apple'' 1, [Check_equal (3 :: int) 4 ''a'' ''4'' ''a.cpp'' 5]),
           (new_TestCase ''Zebra'' 1, [Check_equal 1 2 ''z'' ''2'' ''z.cpp'' 3])];
        apple_then_zebra =
          ''a.cpp(5): '' @ dquote @ ''a'' @ dquote @ '' [3] != '' @ dquote @ ''4'' @ dquote @
            '' [4]'' @ newline @
          ''z.cpp(3): '' @ dquote @ ''z'' @ dquote @ '' [1] != '' @ dquote @ ''2'' @ dquote @
            '' [2]'' @ newline
    in mset apple_first = mset zebra_first
     \<and> distinct (map (\<lambda>r. name_m (fst r)) zebra_first)
     \<and> list_all (\<lambda>r. \<not> list_ex is_Fail (snd r)) zebra_first
     \<and> snd (execute (exact show_int) zebra_first) = apple_then_zebra
     \<and> snd (execute (exact show_int) apple_first) = apple_then_zebra
     \<and> map name_m (fst (execute (exact show_int) zebra_first)) = [''Apple'', ''Zebra'']
     \<and> map nChecked_m (fst (execute (exact show_int) zebra_first)) = [1, 1])"
  using execute_order [where ops = "exact show_int"
          and registry = "[(new_TestCase ''Zebra'' 1, [Check_equal 1 2 ''z'' ''2'' ''z.cpp'' 3]),
                           (new_TestCase ''Apple'' 1, [Check_equal 3 4 ''a'' ''4'' ''a.cpp'' 5])]"
          and registry' = "[(new_TestCase ''Apple'' 1, [Check_equal 3 4 ''a'' ''4'' ''a.cpp'' 5]),
                            (new_TestCase ''Zebra'' 1, [Check_equal 1 2 ''z'' ''2'' ''z.cpp'' 3])]"
          and w = 1 and v = 1]
  by (simp add: Let_def execute_def TestCase_less_def TestCase_spaceship_def new_TestCase_def
        GATS_CHECK_EQUAL_def check_equal_def
        output_check_location_def show_int_def show_nat.simps digit_char_def)

lemma score_sums_eq:
  "score_sums cs (earned, possible) =
     (earned + (\<Sum>c\<leftarrow>filter (\<lambda>c. nChecked_m c \<noteq> 0) cs.
                  weight_m c * (real (unat (nPassed_m c)) / real (unat (nChecked_m c)))),
      possible + (\<Sum>c\<leftarrow>filter (\<lambda>c. nChecked_m c \<noteq> 0) cs. weight_m c))"
  by (induction cs arbitrary: earned possible) (simp_all add: add.assoc)

text \<open>
  Claim C1: the aggregate weighted score is the sum, over the cases with a check, of the
  weight times the ratio of the passed to the checked counter, divided by the sum of the
  weights of the same cases; a case with no check adds to neither sum. For two cases of
  weights 2 and 1 that pass 3 of 4 and 2 of 2 checks the score is
  \<open>(2 * 0.75 + 1 * 1) / 3\<close>, which is \<open>5 / 6\<close>.
\<close>

theorem weighted_score_spec:
  "weighted_score cs =
     (let counted = filter (\<lambda>c. nChecked_m c \<noteq> 0) cs;
          earned = (\<Sum>c\<leftarrow>counted.
                      weight_m c * (real (unat (nPassed_m c)) / real (unat (nChecked_m c))));
          possible = (\<Sum>c\<leftarrow>counted. weight_m c)
      in if possible = 0 then None else Some (earned / possible))
   \<and> weighted_score
        [\<lparr>name_m = a, nChecked_m = 4, nPassed_m = 3, weight_m = 2\<rparr>,
         \<lparr>name_m = b, nChecked_m = 2, nPassed_m = 2, weight_m = 1\<rparr>]
       = Some ((2 * 0.75 + 1 * 1) / 3)
   \<and> (2 * 0.75 + 1 * 1) / 3 = (5 / 6 :: real)"
  by (simp add: weighted_score_def score_sums_eq Let_def)

theorem weighted_score_spec_witness:
  "weighted_score (fst (execute (exact show_int)
      [(new_TestCase ''B'' 1,
          [Check_equal 1 1 ''x'' ''1'' ''b.cpp'' 3, Check_equal 2 2 ''y'' ''2'' ''b.cpp'' 4]),
       (new_TestCase ''A'' 2,
          [Check_equal 1 1 ''x'' ''1'' ''a.cpp'' 3, Check_equal 1 2 ''x'' ''2'' ''a.cpp'' 4,
           Check_equal 3 3 ''z'' ''3'' ''a.cpp'' 5, Check_equal 4 4 ''w'' ''4'' ''a.cpp'' 6]),
       (new_TestCase ''C'' 7, [])]))
     = Some (5 / 6)"
  using weighted_score_spec [where cs = "fst (execute (exact show_int)
      [(new_TestCase ''B'' 1,
          [Check_equal 1 1 ''x'' ''1'' ''b.cpp'' 3, Check_equal 2 2 ''y'' ''2'' ''b.cpp'' 4]),
       (new_TestCase ''A'' 2,
          [Check_equal 1 1 ''x'' ''1'' ''a.cpp'' 3, Check_equal 1 2 ''x'' ''2'' ''a.cpp'' 4,
           Check_equal 3 3 ''z'' ''3'' ''a.cpp'' 5, Check_equal 4 4 ''w'' ''4'' ''a.cpp'' 6]),
       (new_TestCase ''C'' 7, [])])"]
  by (simp add: Let_def execute_def TestCase_less_def TestCase_spaceship_def new_TestCase_def
        GATS_CHECK_EQUAL_def check_equal_def
        weighted_score_def)

end
